theory Spec2Isabelle
  imports Main "HOL-Library.AList" "HOL-Library.Word"
begin

section \<open>Strings, bytes and the library functions the cache relies on\<close>

text \<open>
  A JavaScript string is modelled by the byte string of its UTF-8 encoding, a
  \<open>Buffer\<close> by a list of bytes. The functions of Node that the cache calls and whose
  results no property below depends on (\<open>crypto.createHash("md5")\<close>, the base64 codec
  of \<open>Buffer\<close>, \<open>path.join\<close>) are parameters, collected in the record \<open>node\<close>.
\<close>

type_synonym bytes = "8 word list"

record node =
  md5_hex :: "string \<Rightarrow> string"
  base64_decode :: "string \<Rightarrow> bytes"
  base64_encode :: "bytes \<Rightarrow> string"
  path_join :: "string \<Rightarrow> string \<Rightarrow> string"

definition code :: "char \<Rightarrow> nat" where
  "code c = of_char c"

definition is_lower :: "char \<Rightarrow> bool" where
  "is_lower c = (97 \<le> code c \<and> code c \<le> 122)"

definition is_upper :: "char \<Rightarrow> bool" where
  "is_upper c = (65 \<le> code c \<and> code c \<le> 90)"

definition is_digit :: "char \<Rightarrow> bool" where
  "is_digit c = (48 \<le> code c \<and> code c \<le> 57)"

section \<open>Key derivation (CachedOpenAIImages.ts, line 32)\<close>

text \<open>
  Modelled from the spec: the enum \<open>OrientationEnum\<close> is declared in
  \<open>types/shorts\<close>, which is not among the sources; its two members and their string
  values (the orientation tags \<open>portrait\<close> and \<open>landscape\<close>) are taken from the
  specification.
\<close>

datatype OrientationEnum = portrait | landscape

fun orientation_tag :: "OrientationEnum \<Rightarrow> string" where
  "orientation_tag portrait = ''portrait''"
| "orientation_tag landscape = ''landscape''"

text \<open>\<open>Array.prototype.join\<close>.\<close>

fun join :: "string \<Rightarrow> string list \<Rightarrow> string" where
  "join sep [] = []"
| "join sep [x] = x"
| "join sep (x # y # ys) = x @ sep @ join sep (y # ys)"

text \<open>
  The character class \<open>[^a-z0-9-]\<close> under the flags \<open>gi\<close>: a character is removed
  unless it is an ASCII letter of either case, a digit or the hyphen. (Without the
  \<open>u\<close> flag no character outside ASCII is case-folded into \<open>a-z\<close>, and every byte
  of the encoding of such a character is above 127.)
\<close>

definition key_char :: "char \<Rightarrow> bool" where
  "key_char c = (is_lower c \<or> is_upper c \<or> is_digit c \<or> c = CHR ''-'')"

text \<open>\<open>toLowerCase\<close> on the characters that survive the replacement.\<close>

definition lower_char :: "char \<Rightarrow> char" where
  "lower_char c = (if is_upper c then char_of (code c + 32) else c)"

definition toLowerCase :: "string \<Rightarrow> string" where
  "toLowerCase s = map lower_char s"

definition cacheKey :: "string list \<Rightarrow> OrientationEnum \<Rightarrow> string" where
  "cacheKey searchTerms orientation =
     toLowerCase (filter key_char (join ''-'' searchTerms @ ''-'' @ orientation_tag orientation))"

section \<open>The file system and the cache object (FileCache)\<close>

record CacheEntry =
  entry_id :: string
  filePath :: string
  createdAt :: int
  ttl :: int

text \<open>
  \<open>Map<string, CacheEntry>\<close> is an association list in insertion order; a JavaScript
  \<open>Map\<close> holds every key once, which is the invariant \<open>distinct (map fst (index w))\<close>.
\<close>

type_synonym index_map = "(string \<times> CacheEntry) list"

text \<open>
  The state threaded through every operation: the fields of the \<open>FileCache\<close> object
  (\<open>cacheDir\<close>, \<open>indexPath\<close>, \<open>defaultTTL\<close>, \<open>index\<close>) and the part of the file
  system it works on. \<open>files\<close> maps the path of a blob file to its contents;
  \<open>index_file\<close> is the document stored at \<open>indexPath\<close> (\<open>None\<close> when the file does
  not exist), kept apart from the blobs because a blob file is named by 32 hexadecimal
  digits and an extension, never \<open>index.json\<close>. The four predicates and
  \<open>index_write_fails\<close> say for which paths a file-system call throws, so that each
  \<open>try\<close>/\<open>catch\<close> of the source has both of its branches. \<open>api_calls\<close> counts the
  invocations of \<open>OpenAIImagesAPI.findVideo\<close>.
\<close>

record world =
  cacheDir :: string
  indexPath :: string
  defaultTTL :: int
  index :: index_map
  files :: "string \<Rightarrow> bytes option"
  index_file :: "index_map option"
  write_fails :: "string \<Rightarrow> bool"
  unlink_fails :: "string \<Rightarrow> bool"
  read_fails :: "string \<Rightarrow> bool"
  stat_fails :: "string \<Rightarrow> bool"
  index_write_fails :: bool
  api_calls :: nat

datatype error = InvalidDataUrl | FsError string | ApiError string

text \<open>\<open>fs.existsSync\<close> never throws; the empty path names no file.\<close>

definition existsSync :: "world \<Rightarrow> string \<Rightarrow> bool" where
  "existsSync w p = (p \<noteq> [] \<and> files w p \<noteq> None)"

text \<open>
  The calls that can throw return a sum; a call that throws leaves the files as they were.
\<close>

definition writeFileSync :: "string \<Rightarrow> bytes \<Rightarrow> world \<Rightarrow> error + world" where
  "writeFileSync p buf w =
     (if p = [] \<or> write_fails w p then Inl (FsError p)
      else Inr (w\<lparr>files := (files w)(p \<mapsto> buf)\<rparr>))"

definition unlinkSync :: "string \<Rightarrow> world \<Rightarrow> error + world" where
  "unlinkSync p w =
     (if unlink_fails w p \<or> \<not> existsSync w p then Inl (FsError p)
      else Inr (w\<lparr>files := (files w)(p := None)\<rparr>))"

definition readFileSync :: "string \<Rightarrow> world \<Rightarrow> error + bytes" where
  "readFileSync p w =
     (if read_fails w p \<or> p = [] then Inl (FsError p)
      else case files w p of None \<Rightarrow> Inl (FsError p) | Some buf \<Rightarrow> Inr buf)"

text \<open>\<open>fs.statSync(p).size\<close>.\<close>

definition statSync_size :: "string \<Rightarrow> world \<Rightarrow> error + nat" where
  "statSync_size p w =
     (if stat_fails w p \<or> p = [] then Inl (FsError p)
      else case files w p of None \<Rightarrow> Inl (FsError p) | Some buf \<Rightarrow> Inr (length buf))"

text \<open>\<open>saveIndex\<close>: the whole index is written; a failure is logged and swallowed.\<close>

definition saveIndex :: "world \<Rightarrow> world" where
  "saveIndex w = (if index_write_fails w then w else w\<lparr>index_file := Some (index w)\<rparr>)"

text \<open>\<open>entry.createdAt\<close> and \<open>entry.ttl\<close> compared with the reading \<open>now\<close> of the clock.\<close>

definition expired :: "int \<Rightarrow> CacheEntry \<Rightarrow> bool" where
  "expired now entry = (now - createdAt entry > ttl entry)"

definition delete :: "string \<Rightarrow> world \<Rightarrow> world" where
  "delete ident w =
     (case map_of (index w) ident of
        None \<Rightarrow> w
      | Some entry \<Rightarrow>
          let w1 = (if existsSync w (filePath entry)
                    then (case unlinkSync (filePath entry) w of Inl e \<Rightarrow> w | Inr w' \<Rightarrow> w')
                    else w)
          in saveIndex (w1\<lparr>index := AList.delete ident (index w1)\<rparr>))"

text \<open>Every operation that calls \<open>Date.now()\<close> takes the reading as its argument \<open>now\<close>.\<close>

definition has :: "int \<Rightarrow> string \<Rightarrow> world \<Rightarrow> bool \<times> world" where
  "has now ident w =
     (case map_of (index w) ident of
        None \<Rightarrow> (False, w)
      | Some entry \<Rightarrow>
          if expired now entry then (False, delete ident w)
          else if \<not> existsSync w (filePath entry)
          then (False, saveIndex (w\<lparr>index := AList.delete ident (index w)\<rparr>))
          else (True, w))"

definition get :: "int \<Rightarrow> string \<Rightarrow> world \<Rightarrow> string option \<times> world" where
  "get now ident w =
     (case has now ident w of
        (False, w') \<Rightarrow> (None, w')
      | (True, w') \<Rightarrow> (map_option filePath (map_of (index w') ident), w'))"

text \<open>\<open>if (!filePath)\<close> is taken for \<open>null\<close> and for the empty string.\<close>

definition falsy :: "string option \<Rightarrow> bool" where
  "falsy v = (case v of None \<Rightarrow> True | Some s \<Rightarrow> s = [])"

definition getFileUrl :: "int \<Rightarrow> string \<Rightarrow> world \<Rightarrow> string option \<times> world" where
  "getFileUrl now ident w =
     (case get now ident w of
        (fp, w') \<Rightarrow> if falsy fp then (None, w') else (Some (''file://'' @ the fp), w'))"

definition getDataUrl :: "node \<Rightarrow> int \<Rightarrow> string \<Rightarrow> world \<Rightarrow> string option \<times> world" where
  "getDataUrl L now ident w =
     (case get now ident w of
        (fp, w') \<Rightarrow>
          if falsy fp then (None, w')
          else (case readFileSync (the fp) w' of
                  Inl e \<Rightarrow> (None, w')
                | Inr buf \<Rightarrow> (Some (''data:image/png;base64,'' @ base64_encode L buf), w')))"

subsection \<open>The regular expression of setFromDataUrl\<close>

text \<open>\<open>\w\<close> is \<open>[A-Za-z0-9_]\<close>.\<close>

definition word_char :: "char \<Rightarrow> bool" where
  "word_char c = (is_lower c \<or> is_upper c \<or> is_digit c \<or> c = CHR ''_'')"

text \<open>
  \<open>.\<close> matches every character but the line terminators: line feed, carriage return,
  U+2028 and U+2029 (in UTF-8 the bytes E2 80 A8 and E2 80 A9).
\<close>

fun has_line_terminator :: "string \<Rightarrow> bool" where
  "has_line_terminator [] = False"
| "has_line_terminator (c # cs) =
     (code c = 10 \<or> code c = 13
      \<or> (code c = 226 \<and> (map code (take 2 cs) = [128, 168] \<or> map code (take 2 cs) = [128, 169]))
      \<or> has_line_terminator cs)"

text \<open>
  \<open>dataUrl.match(/^data:image\/(\w+);base64,(.+)$/)\<close>: the two groups, or \<open>None\<close> for
  \<open>null\<close>. \<open>\w+\<close> has to take the whole run of word characters, since the character
  after it must be the semicolon.
\<close>

definition match_data_url :: "string \<Rightarrow> (string \<times> string) option" where
  "match_data_url dataUrl =
     (if take 11 dataUrl = ''data:image/''
      then (let rest = drop 11 dataUrl;
                format = takeWhile word_char rest;
                after = dropWhile word_char rest;
                base64Data = drop 8 after
            in if format \<noteq> [] \<and> take 8 after = '';base64,'' \<and> base64Data \<noteq> []
                  \<and> \<not> has_line_terminator base64Data
               then Some (format, base64Data) else None)
      else None)"

text \<open>\<open>ttl || this.defaultTTL\<close>: an absent \<open>ttl\<close> and the number 0 give the default.\<close>

definition ttl_or_default :: "int option \<Rightarrow> int \<Rightarrow> int" where
  "ttl_or_default t d = (case t of None \<Rightarrow> d | Some n \<Rightarrow> if n = 0 then d else n)"

definition setFromDataUrl ::
  "node \<Rightarrow> string \<Rightarrow> string \<Rightarrow> int option \<Rightarrow> int \<Rightarrow> world \<Rightarrow> (error + string) \<times> world" where
  "setFromDataUrl L ident dataUrl ttl_arg now w =
     (case match_data_url dataUrl of
        None \<Rightarrow> (Inl InvalidDataUrl, w)
      | Some (format, base64Data) \<Rightarrow>
          let buffer = base64_decode L base64Data;
              hash = md5_hex L ident;
              filename = hash @ ''.'' @ format;
              fp = path_join L (cacheDir w) filename
          in (case writeFileSync fp buffer w of
                Inl e \<Rightarrow> (Inl e, w)
              | Inr w1 \<Rightarrow>
                  let entry = \<lparr>entry_id = ident, filePath = fp, createdAt = now,
                               ttl = ttl_or_default ttl_arg (defaultTTL w1)\<rparr>;
                      w2 = w1\<lparr>index := AList.update ident entry (index w1)\<rparr>
                  in (Inr fp, saveIndex w2)))"

text \<open>
  \<open>cleanup\<close>: the loop over \<open>this.index.entries()\<close>. The body deletes only the entry
  it is visiting, so the iterator yields the entries the index held at the start.
  The first component is \<open>deletedCount\<close>, the number the function logs.
\<close>

fun cleanup_loop :: "int \<Rightarrow> index_map \<Rightarrow> nat \<times> world \<Rightarrow> nat \<times> world" where
  "cleanup_loop now [] (deletedCount, w) = (deletedCount, w)"
| "cleanup_loop now ((ident, entry) # rest) (deletedCount, w) =
     (if expired now entry
      then cleanup_loop now rest (deletedCount + 1, delete ident w)
      else cleanup_loop now rest (deletedCount, w))"

definition cleanup :: "int \<Rightarrow> world \<Rightarrow> nat \<times> world" where
  "cleanup now w = cleanup_loop now (index w) (0, w)"

fun clear_loop :: "index_map \<Rightarrow> world \<Rightarrow> world" where
  "clear_loop [] w = w"
| "clear_loop ((ident, entry) # rest) w = clear_loop rest (delete ident w)"

definition clear :: "world \<Rightarrow> world" where
  "clear w = clear_loop (index w) w"

record stats =
  stats_size :: nat
  totalSizeBytes :: nat

fun getStats_loop :: "world \<Rightarrow> index_map \<Rightarrow> nat \<Rightarrow> nat" where
  "getStats_loop w [] totalSize = totalSize"
| "getStats_loop w ((ident, entry) # rest) totalSize =
     getStats_loop w rest
       (if existsSync w (filePath entry)
        then (case statSync_size (filePath entry) w of
                Inl e \<Rightarrow> totalSize
              | Inr n \<Rightarrow> totalSize + n)
        else totalSize)"

text \<open>\<open>getStats\<close> returns the statistics and the state it leaves.\<close>

definition getStats :: "world \<Rightarrow> stats \<times> world" where
  "getStats w =
     (\<lparr>stats_size = length (index w), totalSizeBytes = getStats_loop w (index w) 0\<rparr>, w)"

section \<open>The cache-aside wrapper (CachedOpenAIImagesAPI)\<close>

record Video =
  video_id :: string
  url :: string
  width :: int
  height :: int

text \<open>
  The generator \<open>OpenAIImagesAPI.findVideo\<close> performs an HTTP request; it is a
  parameter: given the number of calls made before and its four arguments it throws
  (\<open>Inl\<close>) or returns a \<open>Video\<close>.
\<close>

type_synonym 'd generator =
  "nat \<Rightarrow> string list \<Rightarrow> 'd \<Rightarrow> string list \<Rightarrow> OrientationEnum \<Rightarrow> error + Video"

text \<open>
  \<open>findVideo\<close> reads the clock up to three times: in the first \<open>getFileUrl\<close> (\<open>t1\<close>),
  in \<open>setFromDataUrl\<close> (\<open>t2\<close>) and in the second \<open>getFileUrl\<close> (\<open>t3\<close>).
\<close>

definition findVideo ::
  "node \<Rightarrow> 'd generator \<Rightarrow> string list \<Rightarrow> 'd \<Rightarrow> string list \<Rightarrow> OrientationEnum \<Rightarrow>
   int \<times> int \<times> int \<Rightarrow> world \<Rightarrow> (error + Video) \<times> world" where
  "findVideo L api searchTerms minDurationSeconds excludeIds orientation clock w =
     (case clock of (t1, t2, t3) \<Rightarrow>
      let key = cacheKey searchTerms orientation in
      case getFileUrl t1 key w of
        (Some cachedUrl, w1) \<Rightarrow>
          (Inr \<lparr>video_id = key, url = cachedUrl,
                width = (if orientation = portrait then 1080 else 1920),
                height = (if orientation = portrait then 1920 else 1080)\<rparr>, w1)
      | (None, w1) \<Rightarrow>
          let w2 = w1\<lparr>api_calls := api_calls w1 + 1\<rparr> in
          (case api (api_calls w1) searchTerms minDurationSeconds excludeIds orientation of
             Inl e \<Rightarrow> (Inl e, w2)
           | Inr result \<Rightarrow>
               (case setFromDataUrl L key (url result) None t2 w2 of
                  (Inl e, w3) \<Rightarrow> (Inr result, w3)
                | (Inr fp, w3) \<Rightarrow>
                    (case getFileUrl t3 key w3 of
                       (Some fileUrl, w4) \<Rightarrow> (Inr (result\<lparr>video_id := key, url := fileUrl\<rparr>), w4)
                     | (None, w4) \<Rightarrow> (Inr result, w4)))))"

text \<open>What a \<open>file://\<close> reference resolves to: the bytes of the file it names.\<close>

definition resolve :: "world \<Rightarrow> string \<Rightarrow> bytes option" where
  "resolve w u = (if take 7 u = ''file://'' \<and> existsSync w (drop 7 u) then files w (drop 7 u) else None)"

section \<open>Definitions used to state the properties\<close>

text \<open>A search term made of lower-case letters and digits only, at least one.\<close>

definition plain_term :: "string \<Rightarrow> bool" where
  "plain_term t = (t \<noteq> [] \<and> (\<forall>c \<in> set t. is_lower c \<or> is_digit c))"

text \<open>The index entries whose age exceeds their TTL at time \<open>now\<close>, and the others.\<close>

definition expired_entries :: "int \<Rightarrow> index_map \<Rightarrow> index_map" where
  "expired_entries now idx = filter (\<lambda>(k, e). now - createdAt e > ttl e) idx"

definition unexpired_entries :: "int \<Rightarrow> index_map \<Rightarrow> index_map" where
  "unexpired_entries now idx = filter (\<lambda>(k, e). now - createdAt e \<le> ttl e) idx"

text \<open>
  The count the specification gives for \<open>stats()\<close>: the index entries that are
  neither expired nor missing their backing file.
\<close>

definition spec_live_count :: "int \<Rightarrow> world \<Rightarrow> nat" where
  "spec_live_count now w =
     length (filter (\<lambda>(k, e). now - createdAt e \<le> ttl e \<and> existsSync w (filePath e)) (index w))"

text \<open>The size on disk of the file at a path (0 when there is none).\<close>

definition file_size :: "world \<Rightarrow> string \<Rightarrow> nat" where
  "file_size w p = (case files w p of None \<Rightarrow> 0 | Some buf \<Rightarrow> length buf)"

text \<open>
  During the loop of \<open>cleanup\<close> the entries still to be visited have distinct keys and
  are the entries the index holds for these keys.
\<close>

definition agrees :: "index_map \<Rightarrow> world \<Rightarrow> bool" where
  "agrees rest w = (distinct (map fst rest) \<and> (\<forall>(k, e) \<in> set rest. map_of (index w) k = Some e))"

subsection \<open>Concrete states\<close>

text \<open>
  Stand-ins for the library functions, enough to run the cache on concrete inputs:
  the digest of a key is the key itself, a payload character decodes to the byte of
  its code, and \<open>path.join\<close> puts a slash between its arguments.
\<close>

definition demo_node :: node where
  "demo_node = \<lparr>md5_hex = (\<lambda>s. s),
                 base64_decode = map (\<lambda>c. of_nat (code c)),
                 base64_encode = map (\<lambda>b. char_of (unat b)),
                 path_join = (\<lambda>d f. d @ ''/'' @ f)\<rparr>"

text \<open>A fresh cache directory: no entry, no file, the default TTL of seven days.\<close>

definition fresh_world :: world where
  "fresh_world = \<lparr>cacheDir = ''/cache'', indexPath = ''/cache/index.json'',
                   defaultTTL = 7 * 24 * 60 * 60 * 1000, index = [],
                   files = (\<lambda>p. None), index_file = None,
                   write_fails = (\<lambda>p. False), unlink_fails = (\<lambda>p. False),
                   read_fails = (\<lambda>p. False), stat_fails = (\<lambda>p. False),
                   index_write_fails = False, api_calls = 0\<rparr>"

text \<open>
  A cache with three entries, all created at time 0: \<open>a\<close> (TTL 100, file of three
  bytes), \<open>b\<close> (TTL 1000, file of two bytes) and \<open>c\<close> (TTL 1000, file missing).
\<close>

definition entry_a :: CacheEntry where
  "entry_a = \<lparr>entry_id = ''a'', filePath = ''/cache/a.png'', createdAt = 0, ttl = 100\<rparr>"

definition entry_b :: CacheEntry where
  "entry_b = \<lparr>entry_id = ''b'', filePath = ''/cache/b.png'', createdAt = 0, ttl = 1000\<rparr>"

definition entry_c :: CacheEntry where
  "entry_c = \<lparr>entry_id = ''c'', filePath = ''/cache/c.png'', createdAt = 0, ttl = 1000\<rparr>"

definition three_world :: world where
  "three_world = fresh_world
     \<lparr>index := [(''a'', entry_a), (''b'', entry_b), (''c'', entry_c)],
      files := [''/cache/a.png'' \<mapsto> [1, 2, 3], ''/cache/b.png'' \<mapsto> [4, 5]]\<rparr>"

text \<open>
  Three generators: one returns a PNG data URL, one a string that is no data URL, one
  throws.
\<close>

definition png_video :: Video where
  "png_video = \<lparr>video_id = ''openai-neon-cat-1000'', url = ''data:image/png;base64,AAAA'',
                 width = 1080, height = 1920\<rparr>"

definition bad_video :: Video where
  "bad_video = \<lparr>video_id = ''openai-neon-cat-1000'', url = ''AAAA'',
                 width = 1080, height = 1920\<rparr>"

definition png_api :: "int generator" where
  "png_api n searchTerms minDurationSeconds excludeIds orientation = Inr png_video"

definition bad_api :: "int generator" where
  "bad_api n searchTerms minDurationSeconds excludeIds orientation = Inr bad_video"

definition failing_api :: "int generator" where
  "failing_api n searchTerms minDurationSeconds excludeIds orientation =
     Inl (ApiError ''No image data returned from OpenAI'')"

text \<open>The state after \<open>findVideo(["cat"], 3)\<close> on the fresh cache at time 1000.\<close>

definition cat_entry :: CacheEntry where
  "cat_entry = \<lparr>entry_id = ''cat-portrait'', filePath = ''/cache/cat-portrait.png'',
                 createdAt = 1000, ttl = 7 * 24 * 60 * 60 * 1000\<rparr>"

definition cat_world :: world where
  "cat_world = fresh_world
     \<lparr>index := [(''cat-portrait'', cat_entry)],
      files := [''/cache/cat-portrait.png'' \<mapsto> base64_decode demo_node ''AAAA''],
      index_file := Some [(''cat-portrait'', cat_entry)],
      api_calls := 1\<rparr>"

section \<open>Properties of key derivation\<close>

lemma hyphen_not_plain: "\<not> is_lower CHR ''-''" "\<not> is_digit CHR ''-''" "\<not> is_upper CHR ''-''"
  by (simp_all add: is_lower_def is_digit_def is_upper_def code_def)

lemma lower_not_upper: "is_lower c \<Longrightarrow> \<not> is_upper c"
  by (simp add: is_lower_def is_upper_def)

lemma digit_not_upper: "is_digit c \<Longrightarrow> \<not> is_upper c"
  by (simp add: is_digit_def is_upper_def)

lemma split_at_sep:
  assumes "c \<notin> set a" "c \<notin> set b" "a @ c # r = b @ c # s"
  shows "a = b \<and> r = s"
proof -
  have "takeWhile (\<lambda>x. x \<noteq> c) (a @ c # r) = a" "takeWhile (\<lambda>x. x \<noteq> c) (b @ c # s) = b"
    using assms(1,2) by (auto simp: takeWhile_tail)
  with assms(3) have "a = b" by simp
  with assms(3) show ?thesis by simp
qed

lemma join_Cons: "join sep (x # xs) = (if xs = [] then x else x @ sep @ join sep xs)"
  by (cases xs) simp_all

lemma join_inj:
  assumes "\<forall>t \<in> set ts. t \<noteq> [] \<and> CHR ''-'' \<notin> set t" "\<forall>t \<in> set us. t \<noteq> [] \<and> CHR ''-'' \<notin> set t"
    and "join ''-'' ts = join ''-'' us"
  shows "ts = us"
  using assms
proof (induction ts arbitrary: us)
  case Nil
  then show ?case by (cases us) (auto simp: join_Cons split: if_splits)
next
  case (Cons x xs)
  show ?case
  proof (cases us)
    case Nil
    with Cons.prems show ?thesis by (auto simp: join_Cons split: if_splits)
  next
    case (Cons u vs)
    note us = this
    from Cons.prems us have hx: "CHR ''-'' \<notin> set x" and hu: "CHR ''-'' \<notin> set u" by auto
    show ?thesis
    proof (cases "xs = []")
      case True
      with Cons.prems us hx show ?thesis by (auto simp: join_Cons split: if_splits)
    next
      case False
      note xs = this
      show ?thesis
      proof (cases "vs = []")
        case True
        with Cons.prems us hu xs show ?thesis by (auto simp: join_Cons split: if_splits)
      next
        case False
        with Cons.prems us xs have e: "x @ CHR ''-'' # join ''-'' xs = u @ CHR ''-'' # join ''-'' vs"
          by (simp add: join_Cons)
        from split_at_sep[OF hx hu e] have xu: "x = u" and r: "join ''-'' xs = join ''-'' vs" by auto
        from Cons.prems us have "xs = vs"
          by (intro Cons.IH) (auto simp: r)
        with xu us show ?thesis by simp
      qed
    qed
  qed
qed

lemma plain_filter: "\<forall>c \<in> set s. is_lower c \<or> is_digit c \<or> c = CHR ''-'' \<Longrightarrow> toLowerCase (filter key_char s) = s"
  unfolding toLowerCase_def
  by (induction s) (auto simp: key_char_def lower_char_def lower_not_upper digit_not_upper hyphen_not_plain)

lemma set_join: "set (join ''-'' ts) \<subseteq> \<Union> (set ` set ts) \<union> {CHR ''-''}"
  by (induction "''-''" ts rule: join.induct) auto

lemma tag_chars: "toLowerCase (filter key_char (''-'' @ orientation_tag ori)) = ''-'' @ orientation_tag ori"
  by (cases ori) (simp_all add: toLowerCase_def key_char_def lower_char_def is_lower_def is_upper_def is_digit_def code_def)

lemma cacheKey_split:
  "cacheKey ts ori = toLowerCase (filter key_char (join ''-'' ts)) @ ''-'' @ orientation_tag ori"
  using tag_chars[of ori] by (simp add: cacheKey_def toLowerCase_def)

lemma cacheKey_plain:
  assumes "\<forall>t \<in> set ts. plain_term t"
  shows "cacheKey ts ori = join ''-'' ts @ ''-'' @ orientation_tag ori"
proof -
  have "\<forall>c \<in> set (join ''-'' ts). is_lower c \<or> is_digit c \<or> c = CHR ''-''"
    using set_join[of ts] assms by (auto simp: plain_term_def)
  then show ?thesis by (simp add: cacheKey_split plain_filter)
qed

lemma cacheKey_orientation: "ori \<noteq> ori' \<Longrightarrow> cacheKey ts ori \<noteq> cacheKey ts' ori'"
proof
  assume ne: "ori \<noteq> ori'" and eq: "cacheKey ts ori = cacheKey ts' ori'"
  have "last (cacheKey ts ori) = last (orientation_tag ori)" for ts ori
    by (cases ori) (simp_all add: cacheKey_split)
  with eq have "last (orientation_tag ori) = last (orientation_tag ori')" by metis
  with ne show False by (cases ori; cases ori') simp_all
qed

lemma cacheKey_terms:
  assumes "\<forall>t \<in> set ts. plain_term t" "\<forall>t \<in> set ts'. plain_term t" "ts \<noteq> ts'"
  shows "cacheKey ts ori \<noteq> cacheKey ts' ori"
proof
  assume "cacheKey ts ori = cacheKey ts' ori"
  then have "join ''-'' ts = join ''-'' ts'"
    using assms(1,2) by (simp add: cacheKey_plain)
  moreover have "\<forall>t \<in> set ts. t \<noteq> [] \<and> CHR ''-'' \<notin> set t" "\<forall>t \<in> set ts'. t \<noteq> [] \<and> CHR ''-'' \<notin> set t"
    using assms(1,2) hyphen_not_plain by (auto simp: plain_term_def)
  ultimately have "ts = ts'" using join_inj by blast
  with assms(3) show False by simp
qed

text \<open>
  C3, as amended. Key derivation is deterministic: equal search terms and orientation
  give equal keys. Two requests of different orientation always get different keys.
  Two requests with different lists of search terms get different keys when every
  term is a non-empty string of lower-case letters and digits.
\<close>

theorem cacheKey_stability:
  "(ts = ts' \<and> ori = ori' \<longrightarrow> cacheKey ts ori = cacheKey ts' ori')
   \<and> (ori \<noteq> ori' \<longrightarrow> cacheKey ts ori \<noteq> cacheKey ts' ori')
   \<and> ((\<forall>t \<in> set ts. plain_term t) \<and> (\<forall>t \<in> set ts'. plain_term t) \<and> ts \<noteq> ts'
        \<longrightarrow> cacheKey ts ori \<noteq> cacheKey ts' ori')"
proof (intro conjI impI)
  assume "ts = ts' \<and> ori = ori'"
  then show "cacheKey ts ori = cacheKey ts' ori'" by simp
next
  assume "ori \<noteq> ori'"
  then show "cacheKey ts ori \<noteq> cacheKey ts' ori'" by (rule cacheKey_orientation)
next
  assume h: "(\<forall>t \<in> set ts. plain_term t) \<and> (\<forall>t \<in> set ts'. plain_term t) \<and> ts \<noteq> ts'"
  show "cacheKey ts ori \<noteq> cacheKey ts' ori'"
  proof (cases "ori = ori'")
    case True
    with h show ?thesis using cacheKey_terms[of ts ts' ori] by simp
  next
    case False
    then show ?thesis by (rule cacheKey_orientation)
  qed
qed

theorem cacheKey_stability_witness:
  "cacheKey [''cat''] portrait = cacheKey [''cat''] portrait
   \<and> cacheKey [''cat''] portrait \<noteq> cacheKey [''cat''] landscape
   \<and> plain_term ''cat'' \<and> plain_term ''dog'' \<and> [''cat''] \<noteq> [''dog'']
   \<and> cacheKey [''cat''] portrait \<noteq> cacheKey [''dog''] portrait"
proof -
  have p: "plain_term ''cat''" "plain_term ''dog''"
    by (simp_all add: plain_term_def is_lower_def is_digit_def code_def)
  show ?thesis
    using p cacheKey_stability[of "[''cat'']" "[''cat'']" portrait portrait]
      cacheKey_stability[of "[''cat'']" "[''cat'']" portrait landscape]
      cacheKey_stability[of "[''cat'']" "[''dog'']" portrait portrait]
    by simp
qed

text \<open>
  C3 as stated fails: the term lists \<open>["a", "b"]\<close> and \<open>["a-b"]\<close> differ and get the
  same key, since the separator of \<open>join\<close> is a character that the terms may hold.
\<close>

theorem cacheKey_collision_counterexample:
  "[''a'', ''b''] \<noteq> [''a-b''] \<and> cacheKey [''a'', ''b''] portrait = cacheKey [''a-b''] portrait"
  by code_simp

text \<open>
  C8, as amended. Key derivation returns a key for every input, and for the empty list
  of search terms the key is a hyphen followed by the orientation tag.
\<close>

theorem cacheKey_empty_terms:
  "cacheKey [] ori = CHR ''-'' # orientation_tag ori"
  using cacheKey_split[of "[]" ori] by (simp add: toLowerCase_def)

theorem cacheKey_empty_terms_witness:
  "cacheKey [] landscape = ''-landscape''"
  using cacheKey_empty_terms[of landscape] by simp

text \<open>
  C8 as stated fails: for the empty list the key is not the orientation tag alone.
\<close>

theorem cacheKey_empty_terms_counterexample:
  "cacheKey [] portrait \<noteq> orientation_tag portrait"
  by code_simp

section \<open>Properties of the file cache\<close>

lemma saveIndex_fields [simp]:
  "index (saveIndex w) = index w" "files (saveIndex w) = files w"
  "api_calls (saveIndex w) = api_calls w" "cacheDir (saveIndex w) = cacheDir w"
  "defaultTTL (saveIndex w) = defaultTTL w"
  "unlink_fails (saveIndex w) = unlink_fails w" "read_fails (saveIndex w) = read_fails w"
  "write_fails (saveIndex w) = write_fails w" "stat_fails (saveIndex w) = stat_fails w"
  "index_write_fails (saveIndex w) = index_write_fails w"
  by (simp_all add: saveIndex_def)

lemma saveIndex_index_file:
  "\<not> index_write_fails w \<Longrightarrow> index_file (saveIndex w) = Some (index w)"
  by (simp add: saveIndex_def)

lemma existsSync_saveIndex [simp]: "existsSync (saveIndex w) p = existsSync w p"
  by (simp add: existsSync_def)

lemma existsSync_index_update [simp]: "existsSync (w\<lparr>index := i\<rparr>) p = existsSync w p"
  by (simp add: existsSync_def)

lemma existsSync_api_calls_update [simp]: "existsSync (w\<lparr>api_calls := n\<rparr>) p = existsSync w p"
  by (simp add: existsSync_def)

lemma delete_index [simp]: "index (delete ident w) = AList.delete ident (index w)"
proof (cases "map_of (index w) ident")
  case None
  then have "ident \<notin> fst ` set (index w)" by (simp add: map_of_eq_None_iff)
  with None show ?thesis by (simp add: delete_def)
next
  case (Some e)
  then show ?thesis
    by (simp add: delete_def unlinkSync_def Let_def)
qed

lemma delete_fields [simp]:
  "api_calls (delete ident w) = api_calls w" "cacheDir (delete ident w) = cacheDir w"
  "defaultTTL (delete ident w) = defaultTTL w"
  "unlink_fails (delete ident w) = unlink_fails w" "read_fails (delete ident w) = read_fails w"
  "write_fails (delete ident w) = write_fails w" "stat_fails (delete ident w) = stat_fails w"
  "index_write_fails (delete ident w) = index_write_fails w"
  by (simp_all add: delete_def unlinkSync_def Let_def split: option.splits)

lemma delete_index_file:
  "map_of (index w) ident = Some e \<Longrightarrow> \<not> index_write_fails w \<Longrightarrow>
   index_file (delete ident w) = Some (AList.delete ident (index w))"
  by (simp add: delete_def unlinkSync_def Let_def saveIndex_def)

lemma delete_files_other:
  "map_of (index w) ident = Some e \<Longrightarrow> p \<noteq> filePath e \<Longrightarrow> files (delete ident w) p = files w p"
  by (simp add: delete_def unlinkSync_def Let_def)

lemma delete_files_shrink: "files (delete ident w) p \<noteq> None \<Longrightarrow> files w p \<noteq> None"
  by (auto simp: delete_def unlinkSync_def Let_def split: option.splits if_splits)

lemma delete_removes_file:
  "map_of (index w) ident = Some e \<Longrightarrow> \<not> unlink_fails w (filePath e) \<Longrightarrow>
   \<not> existsSync (delete ident w) (filePath e)"
  by (auto simp: delete_def unlinkSync_def Let_def existsSync_def)

lemma map_of_delete_same [simp]: "map_of (AList.delete k al) k = None"
  by (simp add: AList.delete_conv')

lemma has_api_calls [simp]: "api_calls (snd (has now ident w)) = api_calls w"
  by (simp add: has_def split: option.splits)

lemma has_False_no_entry:
  "has now ident w = (False, w') \<Longrightarrow> map_of (index w') ident = None"
  by (auto simp: has_def split: option.splits if_splits)

lemma has_True_D:
  "has now ident w = (True, w') \<Longrightarrow>
   w' = w \<and> (\<exists>e. map_of (index w) ident = Some e \<and> \<not> expired now e \<and> existsSync w (filePath e))"
  by (auto simp: has_def split: option.splits if_splits)

lemma has_True_I:
  "map_of (index w) ident = Some e \<Longrightarrow> \<not> expired now e \<Longrightarrow> existsSync w (filePath e) \<Longrightarrow>
   has now ident w = (True, w)"
  by (simp add: has_def)

lemma get_live:
  "map_of (index w) ident = Some e \<Longrightarrow> \<not> expired now e \<Longrightarrow> existsSync w (filePath e) \<Longrightarrow>
   get now ident w = (Some (filePath e), w)"
  by (simp add: get_def has_True_I)

lemma getFileUrl_live:
  "map_of (index w) ident = Some e \<Longrightarrow> \<not> expired now e \<Longrightarrow> existsSync w (filePath e) \<Longrightarrow>
   getFileUrl now ident w = (Some (''file://'' @ filePath e), w)"
  by (simp add: getFileUrl_def get_live falsy_def existsSync_def)

lemma getFileUrl_Some_D:
  assumes "getFileUrl now ident w = (Some u, w')"
  shows "w' = w \<and> (\<exists>e. map_of (index w) ident = Some e \<and> \<not> expired now e
          \<and> existsSync w (filePath e) \<and> u = ''file://'' @ filePath e)"
proof (cases "has now ident w")
  case (Pair b w1)
  show ?thesis
  proof (cases b)
    case True
    with Pair has_True_D[of now ident w w1] obtain e where
      e: "w1 = w" "map_of (index w) ident = Some e" "\<not> expired now e" "existsSync w (filePath e)"
      by auto
    from assms getFileUrl_live[OF e(2,3,4)] show ?thesis using e by auto
  next
    case False
    with Pair assms show ?thesis by (simp add: getFileUrl_def get_def falsy_def)
  qed
qed

lemma getFileUrl_None_D:
  assumes "getFileUrl now ident w = (None, w')"
  shows "map_of (index w') ident = None \<and> api_calls w' = api_calls w"
proof (cases "has now ident w")
  case (Pair b w1)
  show ?thesis
  proof (cases b)
    case True
    with Pair has_True_D[of now ident w w1] obtain e where
      e: "w1 = w" "map_of (index w) ident = Some e" "\<not> expired now e" "existsSync w (filePath e)"
      by auto
    from assms getFileUrl_live[OF e(2,3,4)] show ?thesis by simp
  next
    case False
    with Pair assms have "w' = w1" by (simp add: getFileUrl_def get_def falsy_def)
    moreover have "api_calls w1 = api_calls w" using has_api_calls[of now ident w] Pair by simp
    ultimately show ?thesis using Pair False has_False_no_entry[of now ident w w1] by simp
  qed
qed

lemma setFromDataUrl_fail_unchanged:
  "setFromDataUrl L ident u t now w = (Inl e, w') \<Longrightarrow> w' = w"
  by (auto simp: setFromDataUrl_def Let_def split: option.splits sum.splits prod.splits)

lemma getFileUrl_api_calls: "api_calls (snd (getFileUrl now ident w)) = api_calls w"
  by (cases "getFileUrl now ident w"; cases "fst (getFileUrl now ident w)")
     (auto dest: getFileUrl_None_D getFileUrl_Some_D)

text \<open>
  C2. \<open>has\<close> returns true exactly when the index holds an entry for the key whose age
  \<open>now - createdAt\<close> does not exceed its TTL and whose file exists. When an entry
  exists but is expired or has lost its file, \<open>has\<close> returns false, the entry is
  removed from the index, and the index written to disk is the index without it
  (\<open>saveIndex\<close> swallows a failure to write, hence the condition on
  \<open>index_write_fails\<close>).
\<close>

theorem has_live_iff:
  "(fst (has now ident w) \<longleftrightarrow>
      (\<exists>e. map_of (index w) ident = Some e \<and> now - createdAt e \<le> ttl e
           \<and> existsSync w (filePath e)))
   \<and> (\<forall>e. map_of (index w) ident = Some e
            \<and> (now - createdAt e > ttl e \<or> \<not> existsSync w (filePath e)) \<longrightarrow>
          \<not> fst (has now ident w)
          \<and> index (snd (has now ident w)) = AList.delete ident (index w)
          \<and> map_of (index (snd (has now ident w))) ident = None
          \<and> (\<not> index_write_fails w \<longrightarrow>
               index_file (snd (has now ident w)) = Some (index (snd (has now ident w)))))"
  by (cases "map_of (index w) ident")
     (auto simp: has_def expired_def delete_index_file saveIndex_index_file)

theorem has_live_iff_witness:
  "fst (has 50 ''a'' three_world)
   \<and> \<not> fst (has 200 ''a'' three_world)
   \<and> index (snd (has 200 ''a'' three_world)) = [(''b'', entry_b), (''c'', entry_c)]
   \<and> index_file (snd (has 200 ''a'' three_world)) = Some [(''b'', entry_b), (''c'', entry_c)]
   \<and> \<not> fst (has 50 ''c'' three_world)
   \<and> index (snd (has 50 ''c'' three_world)) = [(''a'', entry_a), (''b'', entry_b)]
   \<and> index_file (snd (has 50 ''c'' three_world)) = Some [(''a'', entry_a), (''b'', entry_b)]"
  using has_live_iff[of 50 "''a''" three_world] has_live_iff[of 200 "''a''" three_world]
    has_live_iff[of 50 "''c''" three_world]
  by (simp add: three_world_def fresh_world_def entry_a_def entry_b_def entry_c_def existsSync_def)

text \<open>
  C9. For an expired entry \<open>has\<close> goes through \<open>delete\<close>: the index record is
  removed and the backing file is unlinked (it no longer exists, unless \<open>unlinkSync\<close>
  throws, which \<open>delete\<close> swallows), no other file being touched. For an unexpired
  entry whose file is missing only the index record is removed and no file changes.
  In both branches the index is written to disk.
\<close>

theorem has_purge_branches:
  "map_of (index w) ident = Some e \<Longrightarrow>
   (now - createdAt e > ttl e \<longrightarrow>
      has now ident w = (False, delete ident w)
      \<and> index (delete ident w) = AList.delete ident (index w)
      \<and> (\<not> unlink_fails w (filePath e) \<longrightarrow> \<not> existsSync (delete ident w) (filePath e))
      \<and> (\<forall>p. p \<noteq> filePath e \<longrightarrow> files (delete ident w) p = files w p)
      \<and> (\<not> index_write_fails w \<longrightarrow>
           index_file (delete ident w) = Some (index (delete ident w))))
   \<and> (now - createdAt e \<le> ttl e \<and> \<not> existsSync w (filePath e) \<longrightarrow>
      \<not> fst (has now ident w)
      \<and> index (snd (has now ident w)) = AList.delete ident (index w)
      \<and> files (snd (has now ident w)) = files w
      \<and> (\<not> index_write_fails w \<longrightarrow>
           index_file (snd (has now ident w)) = Some (index (snd (has now ident w)))))"
  by (auto simp: has_def expired_def delete_index_file saveIndex_index_file
        delete_removes_file delete_files_other)

theorem has_purge_branches_witness:
  "map_of (index three_world) ''a'' = Some entry_a
   \<and> 200 - createdAt entry_a > ttl entry_a
   \<and> has 200 ''a'' three_world = (False, delete ''a'' three_world)
   \<and> index (delete ''a'' three_world) = [(''b'', entry_b), (''c'', entry_c)]
   \<and> \<not> existsSync (delete ''a'' three_world) ''/cache/a.png''
   \<and> files (delete ''a'' three_world) ''/cache/b.png'' = Some [4, 5]
   \<and> index_file (delete ''a'' three_world) = Some [(''b'', entry_b), (''c'', entry_c)]
   \<and> map_of (index three_world) ''c'' = Some entry_c
   \<and> 50 - createdAt entry_c \<le> ttl entry_c \<and> \<not> existsSync three_world ''/cache/c.png''
   \<and> \<not> fst (has 50 ''c'' three_world)
   \<and> index (snd (has 50 ''c'' three_world)) = [(''a'', entry_a), (''b'', entry_b)]
   \<and> files (snd (has 50 ''c'' three_world)) = files three_world
   \<and> index_file (snd (has 50 ''c'' three_world)) = Some [(''a'', entry_a), (''b'', entry_b)]"
proof -
  have a: "map_of (index three_world) ''a'' = Some entry_a"
    and c: "map_of (index three_world) ''c'' = Some entry_c"
    by (simp_all add: three_world_def)
  have f: "\<not> unlink_fails three_world (filePath entry_a)" "\<not> index_write_fails three_world"
    "files three_world ''/cache/b.png'' = Some [4, 5]" "\<not> existsSync three_world ''/cache/c.png''"
    "filePath entry_a = ''/cache/a.png''" "filePath entry_c = ''/cache/c.png''"
    by (simp_all add: three_world_def fresh_world_def entry_a_def entry_c_def existsSync_def)
  have i: "AList.delete ''a'' (index three_world) = [(''b'', entry_b), (''c'', entry_c)]"
    "AList.delete ''c'' (index three_world) = [(''a'', entry_a), (''b'', entry_b)]"
    by (simp_all add: three_world_def)
  have t: "200 - createdAt entry_a > ttl entry_a" "50 - createdAt entry_c \<le> ttl entry_c"
    by (simp_all add: entry_a_def entry_c_def)
  from has_purge_branches[OF a, of 200] has_purge_branches[OF c, of 50] a c f i t
  show ?thesis by simp
qed

subsection \<open>The data URL pattern\<close>

lemma semicolon_not_word: "\<not> word_char CHR '';''"
  by (simp add: word_char_def is_lower_def is_upper_def is_digit_def code_def)

lemma match_data_url_SomeD:
  assumes "match_data_url u = Some (f, p)"
  shows "u = ''data:image/'' @ f @ '';base64,'' @ p \<and> f \<noteq> [] \<and> (\<forall>c \<in> set f. word_char c)
         \<and> p \<noteq> [] \<and> \<not> has_line_terminator p"
proof -
  let ?rest = "drop 11 u"
  let ?after = "dropWhile word_char ?rest"
  from assms have pre: "take 11 u = ''data:image/''"
    by (simp add: match_data_url_def split: if_splits)
  from assms pre have f: "f = takeWhile word_char ?rest" and p: "p = drop 8 ?after"
    and c: "f \<noteq> []" "take 8 ?after = '';base64,''" "p \<noteq> []" "\<not> has_line_terminator p"
    by (auto simp: match_data_url_def Let_def split: if_splits)
  have "u = take 11 u @ ?rest" by simp
  also have "?rest = takeWhile word_char ?rest @ ?after" by simp
  also have "?after = take 8 ?after @ drop 8 ?after" by simp
  finally have "u = ''data:image/'' @ f @ '';base64,'' @ p"
    using pre f p c(2) by simp
  moreover have "\<forall>c \<in> set f. word_char c"
    unfolding f by (auto dest: set_takeWhileD)
  ultimately show ?thesis using c by simp
qed

lemma match_data_url_SomeI:
  assumes "u = ''data:image/'' @ f @ '';base64,'' @ p" "f \<noteq> []" "\<forall>c \<in> set f. word_char c"
    "p \<noteq> []" "\<not> has_line_terminator p"
  shows "match_data_url u = Some (f, p)"
proof -
  have r: "drop 11 u = f @ CHR '';'' # ''base64,'' @ p" using assms(1) by simp
  have tw: "takeWhile word_char (drop 11 u) = f"
    unfolding r using assms(3) semicolon_not_word by (simp add: takeWhile_tail)
  have dw: "dropWhile word_char (drop 11 u) = CHR '';'' # ''base64,'' @ p"
    unfolding r using assms(3) semicolon_not_word by (simp add: dropWhile_append3)
  have "take 11 u = ''data:image/''" using assms(1) by simp
  then show ?thesis
    using assms(2,4,5) by (simp add: match_data_url_def tw dw)
qed

lemma match_data_url_None_iff:
  "match_data_url u = None \<longleftrightarrow>
   \<not> (\<exists>f p. u = ''data:image/'' @ f @ '';base64,'' @ p \<and> f \<noteq> [] \<and> (\<forall>c \<in> set f. word_char c)
          \<and> p \<noteq> [] \<and> \<not> has_line_terminator p)"
proof
  assume "match_data_url u = None"
  then show "\<not> (\<exists>f p. u = ''data:image/'' @ f @ '';base64,'' @ p \<and> f \<noteq> [] \<and> (\<forall>c \<in> set f. word_char c)
          \<and> p \<noteq> [] \<and> \<not> has_line_terminator p)"
    using match_data_url_SomeI by fastforce
next
  assume n: "\<not> (\<exists>f p. u = ''data:image/'' @ f @ '';base64,'' @ p \<and> f \<noteq> [] \<and> (\<forall>c \<in> set f. word_char c)
          \<and> p \<noteq> [] \<and> \<not> has_line_terminator p)"
  show "match_data_url u = None"
  proof (cases "match_data_url u")
    case None then show ?thesis .
  next
    case (Some fp)
    obtain f p where "fp = (f, p)" by (cases fp)
    with Some match_data_url_SomeD[of u f p] n show ?thesis by blast
  qed
qed

text \<open>
  C5. A string that is not of the form \<open>data:image/<subtype>;base64,<payload>\<close>
  (a subtype of one or more word characters, a non-empty payload without line
  terminator: exactly the strings the regular expression rejects) makes
  \<open>setFromDataUrl\<close> throw, and the state (index in memory, index on disk, files) is
  the one before the call.
\<close>

theorem setFromDataUrl_rejects_malformed:
  "\<not> (\<exists>format payload. dataUrl = ''data:image/'' @ format @ '';base64,'' @ payload
        \<and> format \<noteq> [] \<and> (\<forall>c \<in> set format. word_char c)
        \<and> payload \<noteq> [] \<and> \<not> has_line_terminator payload) \<Longrightarrow>
   setFromDataUrl L ident dataUrl ttl_arg now w = (Inl InvalidDataUrl, w)"
  using match_data_url_None_iff[of dataUrl] by (simp add: setFromDataUrl_def)

theorem setFromDataUrl_rejects_malformed_witness:
  "setFromDataUrl demo_node ''cat-portrait'' ''data:text/plain;base64,AAAA'' None 1000 three_world
     = (Inl InvalidDataUrl, three_world)"
  using setFromDataUrl_rejects_malformed[of "''data:text/plain;base64,AAAA''" demo_node
      "''cat-portrait''" None 1000 three_world]
  by simp

section \<open>Properties of the cache-aside wrapper\<close>

text \<open>
  C4. On a miss, when the generator returns \<open>result\<close> and \<open>setFromDataUrl\<close> throws,
  \<open>findVideo\<close> returns \<open>result\<close> unchanged, and the only change of state is the
  count of generator calls. Whatever error \<open>findVideo\<close> raises is the error the
  generator raised.
\<close>

theorem findVideo_cache_failure_isolated:
  "(\<forall>w1 result e w3.
      getFileUrl t1 (cacheKey ts ori) w = (None, w1)
      \<and> api (api_calls w1) ts d ex ori = Inr result
      \<and> setFromDataUrl L (cacheKey ts ori) (url result) None t2
           (w1\<lparr>api_calls := api_calls w1 + 1\<rparr>) = (Inl e, w3) \<longrightarrow>
      findVideo L api ts d ex ori (t1, t2, t3) w
        = (Inr result, w1\<lparr>api_calls := api_calls w1 + 1\<rparr>))
   \<and> (\<forall>e. fst (findVideo L api ts d ex ori (t1, t2, t3) w) = Inl e \<longrightarrow>
          api (api_calls w) ts d ex ori = Inl e)"
proof (intro conjI allI impI)
  fix w1 result e w3
  assume h: "getFileUrl t1 (cacheKey ts ori) w = (None, w1)
      \<and> api (api_calls w1) ts d ex ori = Inr result
      \<and> setFromDataUrl L (cacheKey ts ori) (url result) None t2
           (w1\<lparr>api_calls := api_calls w1 + 1\<rparr>) = (Inl e, w3)"
  then have "w3 = w1\<lparr>api_calls := api_calls w1 + 1\<rparr>"
    using setFromDataUrl_fail_unchanged by blast
  with h show "findVideo L api ts d ex ori (t1, t2, t3) w
        = (Inr result, w1\<lparr>api_calls := api_calls w1 + 1\<rparr>)"
    by (simp add: findVideo_def Let_def)
next
  fix e
  assume f: "fst (findVideo L api ts d ex ori (t1, t2, t3) w) = Inl e"
  obtain r w1 where g: "getFileUrl t1 (cacheKey ts ori) w = (r, w1)"
    by (cases "getFileUrl t1 (cacheKey ts ori) w")
  have c: "api_calls w1 = api_calls w" using getFileUrl_api_calls[of t1 "cacheKey ts ori" w] g by simp
  from f g c show "api (api_calls w) ts d ex ori = Inl e"
    by (auto simp: findVideo_def Let_def split: option.splits sum.splits prod.splits)
qed

theorem findVideo_cache_failure_isolated_witness:
  "getFileUrl 1000 (cacheKey [''cat''] portrait) fresh_world = (None, fresh_world)
   \<and> bad_api (api_calls fresh_world) [''cat''] 3 [] portrait = Inr bad_video
   \<and> setFromDataUrl demo_node (cacheKey [''cat''] portrait) (url bad_video) None 1000
        (fresh_world\<lparr>api_calls := api_calls fresh_world + 1\<rparr>)
       = (Inl InvalidDataUrl, fresh_world\<lparr>api_calls := api_calls fresh_world + 1\<rparr>)
   \<and> findVideo demo_node bad_api [''cat''] 3 [] portrait (1000, 1000, 1000) fresh_world
       = (Inr bad_video, fresh_world\<lparr>api_calls := api_calls fresh_world + 1\<rparr>)
   \<and> fst (findVideo demo_node failing_api [''cat''] 3 [] portrait (1000, 1000, 1000) fresh_world)
       = Inl (ApiError ''No image data returned from OpenAI'')
   \<and> failing_api (api_calls fresh_world) [''cat''] 3 [] portrait
       = Inl (ApiError ''No image data returned from OpenAI'')"
proof -
  have f: "fst (findVideo demo_node failing_api [''cat''] 3 [] portrait (1000, 1000, 1000) fresh_world)
       = Inl (ApiError ''No image data returned from OpenAI'')"
    by (simp add: findVideo_def getFileUrl_def get_def has_def falsy_def fresh_world_def
        failing_api_def Let_def)
  have g: "getFileUrl 1000 (cacheKey [''cat''] portrait) fresh_world = (None, fresh_world)"
    by (simp add: getFileUrl_def get_def has_def falsy_def fresh_world_def)
  have a: "bad_api (api_calls fresh_world) [''cat''] 3 [] portrait = Inr bad_video"
    by (simp add: bad_api_def)
  have s: "setFromDataUrl demo_node (cacheKey [''cat''] portrait) (url bad_video) None 1000
        (fresh_world\<lparr>api_calls := api_calls fresh_world + 1\<rparr>)
       = (Inl InvalidDataUrl, fresh_world\<lparr>api_calls := api_calls fresh_world + 1\<rparr>)"
    by (simp add: setFromDataUrl_def match_data_url_def bad_video_def)
  from findVideo_cache_failure_isolated[of 1000 "[''cat'']" portrait fresh_world bad_api 3 "[]"
      demo_node 1000 1000]
    findVideo_cache_failure_isolated[of 1000 "[''cat'']" portrait fresh_world failing_api 3 "[]"
      demo_node 1000 1000] g a s f
  show ?thesis by blast
qed
lemma findVideo_cached_result:
  assumes "findVideo L api ts d ex ori (t1, t2, t3) w0 = (Inr v1, w1)"
    and "map_of (index w1) (cacheKey ts ori) = Some entry"
  shows "video_id v1 = cacheKey ts ori \<and> url v1 = ''file://'' @ filePath entry
         \<and> existsSync w1 (filePath entry)"
proof -
  let ?k = "cacheKey ts ori"
  obtain r wa where g: "getFileUrl t1 ?k w0 = (r, wa)" by (cases "getFileUrl t1 ?k w0")
  show ?thesis
  proof (cases r)
    case (Some u)
    with g getFileUrl_Some_D[of t1 ?k w0 u wa] assms show ?thesis
      by (auto simp: findVideo_def Let_def)
  next
    case None
    note miss = getFileUrl_None_D[OF g[unfolded None]]
    let ?wb = "wa\<lparr>api_calls := api_calls wa + 1\<rparr>"
    from assms(1) g None obtain result where
      a: "api (api_calls wa) ts d ex ori = Inr result"
      by (auto simp: findVideo_def Let_def split: sum.splits)
    obtain s wc where s: "setFromDataUrl L ?k (url result) None t2 ?wb = (s, wc)"
      by (cases "setFromDataUrl L ?k (url result) None t2 ?wb")
    show ?thesis
    proof (cases s)
      case (Inl e)
      with s have "wc = ?wb" using setFromDataUrl_fail_unchanged by blast
      with assms(1) g None a s Inl have "w1 = ?wb" by (simp add: findVideo_def Let_def)
      with miss assms(2) show ?thesis by simp
    next
      case (Inr fp)
      obtain r2 wd where g2: "getFileUrl t3 ?k wc = (r2, wd)" by (cases "getFileUrl t3 ?k wc")
      show ?thesis
      proof (cases r2)
        case None
        with assms(1) g \<open>r = None\<close> a s Inr g2 have "w1 = wd" by (simp add: findVideo_def Let_def)
        with getFileUrl_None_D[OF g2[unfolded None]] assms(2) show ?thesis by simp
      next
        case (Some u)
        with assms(1) g \<open>r = None\<close> a s Inr g2
        have "w1 = wd" "v1 = result\<lparr>video_id := ?k, url := u\<rparr>" by (simp_all add: findVideo_def Let_def)
        with getFileUrl_Some_D[OF g2[unfolded Some]] assms(2) show ?thesis by auto
      qed
    qed
  qed
qed

text \<open>
  C1. If a call of \<open>findVideo\<close> returned and left an entry for the key in the index
  (it cached its result, or it found it cached), then a second call with the same
  search terms and orientation, at a time \<open>t1'\<close> within the TTL of that entry,
  returns the same \<open>id\<close> and the same \<open>url\<close>, leaves the state as it is (so the
  generator is not called and the file the \<open>url\<close> names keeps its bytes), and the
  \<open>url\<close> resolves to the existing file of the entry.
\<close>

theorem findVideo_second_call_hits:
  assumes "findVideo L api ts d ex ori (t1, t2, t3) w0 = (Inr v1, w1)"
    and "map_of (index w1) (cacheKey ts ori) = Some entry"
    and "t1' - createdAt entry \<le> ttl entry"
  shows "findVideo L api ts d' ex' ori (t1', t2', t3') w1 =
           (Inr \<lparr>video_id = video_id v1, url = url v1,
                 width = (if ori = portrait then 1080 else 1920),
                 height = (if ori = portrait then 1920 else 1080)\<rparr>, w1)
         \<and> api_calls (snd (findVideo L api ts d' ex' ori (t1', t2', t3') w1)) = api_calls w1
         \<and> video_id v1 = cacheKey ts ori
         \<and> resolve w1 (url v1) = files w1 (filePath entry)
         \<and> files w1 (filePath entry) \<noteq> None"
proof -
  from findVideo_cached_result[OF assms(1,2)]
  have r: "video_id v1 = cacheKey ts ori" "url v1 = ''file://'' @ filePath entry"
    "existsSync w1 (filePath entry)" by simp_all
  from assms(3) have "\<not> expired t1' entry" by (simp add: expired_def)
  from getFileUrl_live[OF assms(2) this r(3)]
  have f: "findVideo L api ts d' ex' ori (t1', t2', t3') w1 =
     (Inr \<lparr>video_id = video_id v1, url = url v1,
           width = (if ori = portrait then 1080 else 1920),
           height = (if ori = portrait then 1920 else 1080)\<rparr>, w1)"
    using r by (simp add: findVideo_def Let_def)
  from r(3) have "files w1 (filePath entry) \<noteq> None" by (simp add: existsSync_def)
  with f r show ?thesis by (simp add: resolve_def)
qed

lemma cacheKey_cat: "cacheKey [''cat''] portrait = ''cat-portrait''"
  by code_simp

lemma findVideo_fresh_cat:
  "findVideo demo_node png_api [''cat''] 3 [] portrait (1000, 1000, 1000) fresh_world
     = (Inr (png_video\<lparr>video_id := ''cat-portrait'', url := ''file:///cache/cat-portrait.png''\<rparr>),
        cat_world)"
  by (simp add: findVideo_def cacheKey_cat getFileUrl_def get_def has_def falsy_def
      fresh_world_def png_api_def png_video_def setFromDataUrl_def match_data_url_def
      word_char_def is_lower_def is_upper_def is_digit_def code_def writeFileSync_def
      demo_node_def ttl_or_default_def saveIndex_def expired_def existsSync_def
      cat_world_def cat_entry_def Let_def)

theorem findVideo_second_call_hits_witness:
  "findVideo demo_node png_api [''cat''] 3 [] portrait (1000, 1000, 1000) fresh_world
     = (Inr (png_video\<lparr>video_id := ''cat-portrait'', url := ''file:///cache/cat-portrait.png''\<rparr>),
        cat_world)
   \<and> map_of (index cat_world) (cacheKey [''cat''] portrait) = Some cat_entry
   \<and> 5000 - createdAt cat_entry \<le> ttl cat_entry
   \<and> api_calls cat_world = 1
   \<and> findVideo demo_node png_api [''cat''] 3 [] portrait (5000, 5000, 5000) cat_world
       = (Inr \<lparr>video_id = ''cat-portrait'', url = ''file:///cache/cat-portrait.png'',
               width = 1080, height = 1920\<rparr>, cat_world)
   \<and> api_calls (snd (findVideo demo_node png_api [''cat''] 3 [] portrait (5000, 5000, 5000) cat_world)) = 1
   \<and> resolve cat_world ''file:///cache/cat-portrait.png'' = Some (base64_decode demo_node ''AAAA'')"
proof -
  have m: "map_of (index cat_world) (cacheKey [''cat''] portrait) = Some cat_entry"
    by (simp add: cacheKey_cat cat_world_def)
  have t: "5000 - createdAt cat_entry \<le> ttl cat_entry"
    by (simp add: cat_entry_def)
  have c: "api_calls cat_world = 1" "filePath cat_entry = ''/cache/cat-portrait.png''"
    "files cat_world ''/cache/cat-portrait.png'' = Some (base64_decode demo_node ''AAAA'')"
    by (simp_all add: cat_world_def cat_entry_def)
  from findVideo_second_call_hits[OF findVideo_fresh_cat m t, of 3 "[]" 5000 5000] findVideo_fresh_cat m t c
  show ?thesis by (simp add: png_video_def)
qed

section \<open>Reading back, statistics and cleanup\<close>

lemma getDataUrl_live:
  assumes "map_of (index w) ident = Some e" "\<not> expired now e" "existsSync w (filePath e)"
    "\<not> read_fails w (filePath e)" "files w (filePath e) = Some buf"
  shows "getDataUrl L now ident w = (Some (''data:image/png;base64,'' @ base64_encode L buf), w)"
  using assms
  by (simp add: getDataUrl_def get_live falsy_def existsSync_def readFileSync_def)

lemma setFromDataUrl_ok:
  assumes "setFromDataUrl L ident u t now w = (Inr fp, w')" "match_data_url u = Some (f, p)"
  shows "map_of (index w') ident = Some \<lparr>entry_id = ident, filePath = fp, createdAt = now,
            ttl = ttl_or_default t (defaultTTL w)\<rparr>
         \<and> files w' fp = Some (base64_decode L p) \<and> fp \<noteq> [] \<and> read_fails w' = read_fails w
         \<and> fp = path_join L (cacheDir w) (md5_hex L ident @ ''.'' @ f)"
  using assms
  by (auto simp: setFromDataUrl_def Let_def writeFileSync_def AList.update_conv'
      split: if_splits)

text \<open>
  C10. For a live entry whose file can be read, \<open>getDataUrl\<close> returns the bytes of the
  file under the media type \<open>image/png\<close>; in particular content stored by
  \<open>setFromDataUrl\<close> from a data URL of any subtype \<open>format\<close> comes back labelled
  \<open>image/png\<close>.
\<close>

theorem getDataUrl_always_png:
  "(\<forall>e buf. map_of (index w) ident = Some e \<and> now - createdAt e \<le> ttl e
        \<and> files w (filePath e) = Some buf \<and> filePath e \<noteq> [] \<and> \<not> read_fails w (filePath e) \<longrightarrow>
      getDataUrl L now ident w = (Some (''data:image/png;base64,'' @ base64_encode L buf), w))
   \<and> (\<forall>format payload fp w'.
        match_data_url dataUrl = Some (format, payload)
        \<and> setFromDataUrl L ident dataUrl ttl_arg t0 w = (Inr fp, w')
        \<and> now - t0 \<le> ttl_or_default ttl_arg (defaultTTL w) \<and> \<not> read_fails w fp \<longrightarrow>
      getDataUrl L now ident w'
        = (Some (''data:image/png;base64,'' @ base64_encode L (base64_decode L payload)), w'))"
proof (intro conjI allI impI)
  fix e buf
  assume "map_of (index w) ident = Some e \<and> now - createdAt e \<le> ttl e
        \<and> files w (filePath e) = Some buf \<and> filePath e \<noteq> [] \<and> \<not> read_fails w (filePath e)"
  then show "getDataUrl L now ident w = (Some (''data:image/png;base64,'' @ base64_encode L buf), w)"
    by (intro getDataUrl_live[of w ident e]) (auto simp: expired_def existsSync_def)
next
  fix format payload fp w'
  assume h: "match_data_url dataUrl = Some (format, payload)
        \<and> setFromDataUrl L ident dataUrl ttl_arg t0 w = (Inr fp, w')
        \<and> now - t0 \<le> ttl_or_default ttl_arg (defaultTTL w) \<and> \<not> read_fails w fp"
  let ?e = "\<lparr>entry_id = ident, filePath = fp, createdAt = t0,
            ttl = ttl_or_default ttl_arg (defaultTTL w)\<rparr>"
  from h have h1: "match_data_url dataUrl = Some (format, payload)"
    and h2: "setFromDataUrl L ident dataUrl ttl_arg t0 w = (Inr fp, w')" by blast+
  from setFromDataUrl_ok[OF h2 h1]
  have s: "map_of (index w') ident = Some ?e" "files w' fp = Some (base64_decode L payload)"
    "fp \<noteq> []" "read_fails w' = read_fails w" by blast+
  show "getDataUrl L now ident w'
        = (Some (''data:image/png;base64,'' @ base64_encode L (base64_decode L payload)), w')"
    using h s by (intro getDataUrl_live[of w' ident ?e]) (auto simp: expired_def existsSync_def)
qed

theorem getDataUrl_always_png_witness:
  "map_of (index three_world) ''a'' = Some entry_a \<and> 50 - createdAt entry_a \<le> ttl entry_a
   \<and> files three_world (filePath entry_a) = Some [1, 2, 3] \<and> filePath entry_a \<noteq> []
   \<and> \<not> read_fails three_world (filePath entry_a)
   \<and> getDataUrl demo_node 50 ''a'' three_world
       = (Some (''data:image/png;base64,'' @ base64_encode demo_node [1, 2, 3]), three_world)
   \<and> match_data_url ''data:image/jpeg;base64,AAAA'' = Some (''jpeg'', ''AAAA'')
   \<and> fst (setFromDataUrl demo_node ''k'' ''data:image/jpeg;base64,AAAA'' None 1000 fresh_world)
       = Inr ''/cache/k.jpeg''
   \<and> 2000 - 1000 \<le> ttl_or_default None (defaultTTL fresh_world)
   \<and> \<not> read_fails fresh_world ''/cache/k.jpeg''
   \<and> fst (getDataUrl demo_node 2000 ''k''
        (snd (setFromDataUrl demo_node ''k'' ''data:image/jpeg;base64,AAAA'' None 1000 fresh_world)))
       = Some (''data:image/png;base64,'' @ base64_encode demo_node (base64_decode demo_node ''AAAA''))"
proof -
  have a: "map_of (index three_world) ''a'' = Some entry_a" "50 - createdAt entry_a \<le> ttl entry_a"
    "files three_world (filePath entry_a) = Some [1, 2, 3]" "filePath entry_a \<noteq> []"
    "\<not> read_fails three_world (filePath entry_a)"
    by (simp_all add: three_world_def fresh_world_def entry_a_def)
  have m: "match_data_url ''data:image/jpeg;base64,AAAA'' = Some (''jpeg'', ''AAAA'')"
    by (simp add: match_data_url_def word_char_def is_lower_def is_upper_def is_digit_def code_def)
  let ?r = "setFromDataUrl demo_node ''k'' ''data:image/jpeg;base64,AAAA'' None 1000 fresh_world"
  have s: "fst ?r = Inr ''/cache/k.jpeg''"
    by (simp add: setFromDataUrl_def m writeFileSync_def demo_node_def fresh_world_def Let_def)
  then have s': "?r = (Inr ''/cache/k.jpeg'', snd ?r)" by (metis prod.collapse)
  have t: "2000 - 1000 \<le> ttl_or_default None (defaultTTL fresh_world)"
    "\<not> read_fails fresh_world ''/cache/k.jpeg''"
    by (simp_all add: ttl_or_default_def fresh_world_def)
  from getDataUrl_always_png[of three_world "''a''" 50 demo_node]
    getDataUrl_always_png[of fresh_world "''k''" 2000 demo_node
      "''data:image/jpeg;base64,AAAA''" None 1000] a m s s' t
  show ?thesis by simp
qed
lemma getStats_loop_sum:
  "getStats_loop w idx acc =
   acc + sum_list (map (\<lambda>(k, e). if existsSync w (filePath e) \<and> \<not> stat_fails w (filePath e)
                                    then file_size w (filePath e) else 0) idx)"
  by (induction idx arbitrary: acc)
     (auto simp: statSync_size_def existsSync_def file_size_def split: option.splits)

text \<open>
  C7, as amended. \<open>getStats\<close> returns as \<open>size\<close> the number of all index entries,
  whether live, expired or without their file, and as \<open>totalSizeBytes\<close> the sum of
  the sizes of the files that exist (and whose \<open>statSync\<close> does not throw); the state
  is unchanged.
\<close>

theorem getStats_counts_all_entries:
  "getStats w =
     (\<lparr>stats_size = length (index w),
       totalSizeBytes = sum_list (map (\<lambda>(k, e). if existsSync w (filePath e) \<and> \<not> stat_fails w (filePath e)
                                    then file_size w (filePath e) else 0) (index w))\<rparr>, w)"
  by (simp add: getStats_def getStats_loop_sum)

theorem getStats_counts_all_entries_witness:
  "getStats three_world = (\<lparr>stats_size = 3, totalSizeBytes = 5\<rparr>, three_world)"
  using getStats_counts_all_entries[of three_world]
  by (simp add: three_world_def fresh_world_def entry_a_def entry_b_def entry_c_def
      existsSync_def file_size_def)

text \<open>
  C7 as stated fails: at time 200 the example cache holds one live entry (\<open>b\<close>; \<open>a\<close>
  is expired and the file of \<open>c\<close> is missing), and \<open>getStats\<close> reports the size 3.
\<close>

theorem getStats_live_count_counterexample:
  "spec_live_count 200 three_world = 1 \<and> stats_size (fst (getStats three_world)) = 3
   \<and> stats_size (fst (getStats three_world)) \<noteq> spec_live_count 200 three_world"
  by (simp add: spec_live_count_def getStats_def three_world_def fresh_world_def
      entry_a_def entry_b_def entry_c_def existsSync_def)
lemma expired_entries_Cons:
  "expired_entries now ((k, e) # rest) =
     (if expired now e then (k, e) # expired_entries now rest else expired_entries now rest)"
  by (simp add: expired_entries_def expired_def)

lemma expired_entries_Nil [simp]: "expired_entries now [] = []"
  by (simp add: expired_entries_def)

lemma cleanup_loop_count:
  "fst (cleanup_loop now rest (n, w)) = n + length (expired_entries now rest)"
  by (induction rest arbitrary: n w) (auto simp: expired_entries_Cons)

lemma cleanup_loop_index:
  "index (snd (cleanup_loop now rest (n, w))) =
     filter (\<lambda>(k, e). k \<notin> fst ` set (expired_entries now rest)) (index w)"
proof (induction rest arbitrary: n w)
  case Nil
  then show ?case by simp
next
  case (Cons x rest)
  obtain k e where x: "x = (k, e)" by (cases x)
  show ?case
  proof (cases "expired now e")
    case True
    have "filter (\<lambda>(k', e'). k' \<notin> fst ` set (expired_entries now rest)) (AList.delete k (index w))
        = filter (\<lambda>(k', e'). k' \<notin> fst ` set (expired_entries now ((k, e) # rest))) (index w)"
      using True by (auto simp: AList.delete_eq expired_entries_Cons intro!: filter_cong)
    with True x Cons.IH[of "n + 1" "delete k w"] show ?thesis by simp
  next
    case False
    with x Cons.IH[of n w] show ?thesis by (simp add: expired_entries_Cons)
  qed
qed

lemma cleanup_loop_unlink_fails [simp]:
  "unlink_fails (snd (cleanup_loop now rest (n, w))) = unlink_fails w"
  by (induction rest arbitrary: n w) auto

lemma cleanup_loop_files_shrink:
  "files (snd (cleanup_loop now rest (n, w))) p \<noteq> None \<Longrightarrow> files w p \<noteq> None"
proof (induction rest arbitrary: n w)
  case Nil
  then show ?case by simp
next
  case (Cons x rest)
  obtain k e where x: "x = (k, e)" by (cases x)
  show ?case
  proof (cases "expired now e")
    case True
    with Cons.prems x have "files (snd (cleanup_loop now rest (n + 1, delete k w))) p \<noteq> None" by simp
    then have "files (delete k w) p \<noteq> None" by (rule Cons.IH)
    then show ?thesis by (rule delete_files_shrink)
  next
    case False
    with Cons x show ?thesis by simp
  qed
qed

lemma agrees_step:
  assumes "agrees ((k, e) # rest) w"
  shows "agrees rest w" "agrees rest (delete k w)" "map_of (index w) k = Some e"
proof -
  from assms show "agrees rest w" "map_of (index w) k = Some e" by (auto simp: agrees_def)
  from assms have "\<forall>(k', e') \<in> set rest. k' \<noteq> k" by (force simp: agrees_def)
  with assms show "agrees rest (delete k w)" by (fastforce simp: agrees_def AList.delete_conv')
qed

lemma agrees_index: "distinct (map fst (index w)) \<Longrightarrow> agrees (index w) w"
  by (auto simp: agrees_def)

lemma cleanup_loop_files_frame:
  assumes "agrees rest w" "p \<notin> (\<lambda>(k, e). filePath e) ` set (expired_entries now rest)"
  shows "files (snd (cleanup_loop now rest (n, w))) p = files w p"
  using assms
proof (induction rest arbitrary: n w)
  case Nil
  then show ?case by simp
next
  case (Cons x rest)
  obtain k e where x: "x = (k, e)" by (cases x)
  note a = agrees_step[OF Cons.prems(1)[unfolded x]]
  show ?case
  proof (cases "expired now e")
    case True
    with Cons.prems(2) x have p: "p \<noteq> filePath e"
      "p \<notin> (\<lambda>(k, e). filePath e) ` set (expired_entries now rest)"
      by (auto simp: expired_entries_Cons)
    from Cons.IH[OF a(2) p(2), of "n + 1"] delete_files_other[OF a(3) p(1)] True x
    show ?thesis by simp
  next
    case False
    with Cons.prems(2) x have "p \<notin> (\<lambda>(k, e). filePath e) ` set (expired_entries now rest)"
      by (auto simp: expired_entries_Cons)
    from Cons.IH[OF a(1) this, of n] False x show ?thesis by simp
  qed
qed

lemma cleanup_loop_removes_file:
  assumes "agrees rest w" "(k, e) \<in> set (expired_entries now rest)" "\<not> unlink_fails w (filePath e)"
  shows "\<not> existsSync (snd (cleanup_loop now rest (n, w))) (filePath e)"
  using assms
proof (induction rest arbitrary: n w)
  case Nil
  then show ?case by simp
next
  case (Cons x rest)
  obtain k0 e0 where x: "x = (k0, e0)" by (cases x)
  note a = agrees_step[OF Cons.prems(1)[unfolded x]]
  show ?case
  proof (cases "expired now e0")
    case True
    note ex = this
    show ?thesis
    proof (cases "(k, e) = (k0, e0)")
      case True
      with delete_removes_file[OF a(3)] Cons.prems(3)
      have "\<not> existsSync (delete k0 w) (filePath e)" by simp
      then have "\<not> existsSync (snd (cleanup_loop now rest (n + 1, delete k0 w))) (filePath e)"
        using cleanup_loop_files_shrink[of now rest "n + 1" "delete k0 w" "filePath e"]
        by (auto simp: existsSync_def)
      with ex x show ?thesis by simp
    next
      case False
      with Cons.prems(2) x ex have "(k, e) \<in> set (expired_entries now rest)"
        by (auto simp: expired_entries_Cons)
      from Cons.IH[OF a(2) this, of "n + 1"] Cons.prems(3) ex x show ?thesis by simp
    qed
  next
    case False
    with Cons.prems(2) x have "(k, e) \<in> set (expired_entries now rest)"
      by (auto simp: expired_entries_Cons)
    from Cons.IH[OF a(1) this Cons.prems(3), of n] False x show ?thesis by simp
  qed
qed

lemma cleanup_index:
  assumes "distinct (map fst (index w))"
  shows "index (snd (cleanup now w)) = unexpired_entries now (index w)"
proof -
  have "(k \<notin> fst ` set (expired_entries now (index w))) = (now - createdAt e \<le> ttl e)"
    if "(k, e) \<in> set (index w)" for k e
  proof
    assume "k \<notin> fst ` set (expired_entries now (index w))"
    with that show "now - createdAt e \<le> ttl e" by (force simp: expired_entries_def)
  next
    assume le: "now - createdAt e \<le> ttl e"
    show "k \<notin> fst ` set (expired_entries now (index w))"
    proof
      assume "k \<in> fst ` set (expired_entries now (index w))"
      then obtain e' where "(k, e') \<in> set (index w)" "now - createdAt e' > ttl e'"
        by (auto simp: expired_entries_def)
      with assms that have "e' = e" by (meson eq_key_imp_eq_value)
      with le \<open>now - createdAt e' > ttl e'\<close> show False by simp
    qed
  qed
  then show ?thesis
    unfolding cleanup_def cleanup_loop_index unexpired_entries_def
    by (auto intro!: filter_cong)
qed

text \<open>
  C6. Let the index hold N entries under distinct keys, M of them with an age above
  their TTL. \<open>cleanup\<close> leaves in the index exactly the other N - M entries, in
  their order, and counts M deletions. Every expired entry is gone from the index and
  its file no longer exists (unless \<open>unlinkSync\<close> throws for it). Every other entry
  is still in the index, and if its file existed and is not also the file of an
  expired entry, the file is untouched and the entry still resolves.
\<close>

theorem cleanup_removes_exactly_expired:
  assumes "distinct (map fst (index w))" and "cleanup now w = (deletedCount, w')"
  shows "index w' = unexpired_entries now (index w)
     \<and> deletedCount = length (expired_entries now (index w))
     \<and> length (index w') = length (index w) - deletedCount
     \<and> (\<forall>(k, e) \<in> set (expired_entries now (index w)).
          map_of (index w') k = None
          \<and> (\<not> unlink_fails w (filePath e) \<longrightarrow> \<not> existsSync w' (filePath e)))
     \<and> (\<forall>(k, e) \<in> set (unexpired_entries now (index w)).
          map_of (index w') k = Some e
          \<and> (existsSync w (filePath e)
              \<and> filePath e \<notin> (\<lambda>(k, e). filePath e) ` set (expired_entries now (index w)) \<longrightarrow>
             files w' (filePath e) = files w (filePath e)
             \<and> getFileUrl now k w' = (Some (''file://'' @ filePath e), w')))"
proof -
  from assms(2) have w': "w' = snd (cleanup now w)" and n: "deletedCount = fst (cleanup now w)"
    by simp_all
  have idx: "index w' = unexpired_entries now (index w)"
    unfolding w' by (rule cleanup_index[OF assms(1)])
  have cnt: "deletedCount = length (expired_entries now (index w))"
    unfolding n cleanup_def by (simp add: cleanup_loop_count)
  have len: "length (index w') = length (index w) - deletedCount"
    unfolding idx cnt unexpired_entries_def expired_entries_def
    using sum_length_filter_compl[of "\<lambda>(k, e). now - createdAt e > ttl e" "index w"]
    by (simp add: not_less case_prod_unfold)
  have d': "distinct (map fst (index w'))"
    unfolding idx unexpired_entries_def using assms(1) by (simp add: distinct_map_filter)
  have gone: "map_of (index w') k = None \<and> (\<not> unlink_fails w (filePath e) \<longrightarrow> \<not> existsSync w' (filePath e))"
    if "(k, e) \<in> set (expired_entries now (index w))" for k e
  proof
    from that have m: "(k, e) \<in> set (index w)" "now - createdAt e > ttl e"
      by (auto simp: expired_entries_def)
    show "map_of (index w') k = None"
    proof (rule ccontr)
      assume "map_of (index w') k \<noteq> None"
      then obtain e' where "(k, e') \<in> set (index w')" by (auto dest: map_of_SomeD)
      then have "(k, e') \<in> set (index w)" "now - createdAt e' \<le> ttl e'"
        by (auto simp: idx unexpired_entries_def)
      with assms(1) m(1) have "e' = e" by (meson eq_key_imp_eq_value)
      with m(2) \<open>now - createdAt e' \<le> ttl e'\<close> show False by simp
    qed
    show "\<not> unlink_fails w (filePath e) \<longrightarrow> \<not> existsSync w' (filePath e)"
      unfolding w' cleanup_def
      using cleanup_loop_removes_file[OF agrees_index[OF assms(1)] that] by blast
  qed
  have kept: "map_of (index w') k = Some e
          \<and> (existsSync w (filePath e)
              \<and> filePath e \<notin> (\<lambda>(k, e). filePath e) ` set (expired_entries now (index w)) \<longrightarrow>
             files w' (filePath e) = files w (filePath e)
             \<and> getFileUrl now k w' = (Some (''file://'' @ filePath e), w'))"
    if "(k, e) \<in> set (unexpired_entries now (index w))" for k e
  proof (intro conjI impI)
    from that have le: "now - createdAt e \<le> ttl e" by (auto simp: unexpired_entries_def)
    from that d' show m: "map_of (index w') k = Some e" by (simp add: idx)
    assume h: "existsSync w (filePath e)
              \<and> filePath e \<notin> (\<lambda>(k, e). filePath e) ` set (expired_entries now (index w))"
    then show f: "files w' (filePath e) = files w (filePath e)"
      unfolding w' cleanup_def
      using cleanup_loop_files_frame[OF agrees_index[OF assms(1)]] by blast
    with h have "existsSync w' (filePath e)" by (simp add: existsSync_def)
    moreover from le have "\<not> expired now e" by (simp add: expired_def)
    ultimately show "getFileUrl now k w' = (Some (''file://'' @ filePath e), w')"
      using m by (intro getFileUrl_live)
  qed
  from idx cnt len gone kept show ?thesis by blast
qed

theorem cleanup_removes_exactly_expired_witness:
  "distinct (map fst (index three_world))
   \<and> fst (cleanup 200 three_world) = 1
   \<and> index (snd (cleanup 200 three_world)) = [(''b'', entry_b), (''c'', entry_c)]
   \<and> length (index (snd (cleanup 200 three_world))) = 3 - 1
   \<and> map_of (index (snd (cleanup 200 three_world))) ''a'' = None
   \<and> \<not> existsSync (snd (cleanup 200 three_world)) ''/cache/a.png''
   \<and> files (snd (cleanup 200 three_world)) ''/cache/b.png'' = Some [4, 5]
   \<and> getFileUrl 200 ''b'' (snd (cleanup 200 three_world))
       = (Some ''file:///cache/b.png'', snd (cleanup 200 three_world))"
proof -
  have d: "distinct (map fst (index three_world))"
    by (simp add: three_world_def)
  have c: "cleanup 200 three_world = (fst (cleanup 200 three_world), snd (cleanup 200 three_world))"
    by simp
  have e: "expired_entries 200 (index three_world) = [(''a'', entry_a)]"
    "unexpired_entries 200 (index three_world) = [(''b'', entry_b), (''c'', entry_c)]"
    by (simp_all add: expired_entries_def unexpired_entries_def three_world_def
        entry_a_def entry_b_def entry_c_def)
  have f: "\<not> unlink_fails three_world (filePath entry_a)" "filePath entry_a = ''/cache/a.png''"
    "filePath entry_b = ''/cache/b.png''" "existsSync three_world ''/cache/b.png''"
    "files three_world ''/cache/b.png'' = Some [4, 5]" "length (index three_world) = 3"
    by (simp_all add: three_world_def fresh_world_def entry_a_def entry_b_def existsSync_def)
  from cleanup_removes_exactly_expired[OF d c] d e f
  show ?thesis by simp
qed

end
